theory Spec2Isabelle
  imports Complex_Main "HOL-Library.AList" "HOL-Library.Multiset"
begin

section \<open>Exact inference over a pedigree: the model of heredity.py\<close>

text \<open>
  Python's floating-point numbers are modelled as the real numbers: every probability
  below is a \<^typ>\<open>real\<close>, so rounding is outside the model. Python's \<open>int\<close> is
  \<^typ>\<open>int\<close>, a dictionary keyed by names is an association list in insertion order
  (its keys distinct), a Python set of names is a \<^typ>\<open>string set\<close>. Every exception
  the code can raise is a value of \<open>error\<close>; so is the error that Python reports for
  the text of \<open>child_parent_prob\<close>.
\<close>

subsection \<open>Errors and dictionary access\<close>

datatype error = KeyError | ZeroDivisionError | IndentationError

definition bindE :: "error + 'a \<Rightarrow> ('a \<Rightarrow> error + 'b) \<Rightarrow> error + 'b" where
  "bindE r f = (case r of Inl e \<Rightarrow> Inl e | Inr v \<Rightarrow> f v)"

text \<open>\<open>d[k]\<close>: a missing key raises \<open>KeyError\<close>.\<close>

definition getitem :: "('k \<rightharpoonup> 'v) \<Rightarrow> 'k \<Rightarrow> error + 'v" where
  "getitem d k = (case d k of None \<Rightarrow> Inl KeyError | Some v \<Rightarrow> Inr v)"

subsection \<open>The probability tables\<close>

text \<open>\<open>PROBS["mutation"]\<close>, \<open>PROBS["gene"]\<close>, \<open>PROBS["trait"]\<close> and
  \<open>PARENT_PROB["parent"]\<close>.\<close>

definition PROBS_mutation :: real where
  "PROBS_mutation = 0.01"

definition PROBS_gene :: "int \<rightharpoonup> real" where
  "PROBS_gene = [2 \<mapsto> 0.01, 1 \<mapsto> 0.03, 0 \<mapsto> 0.96]"

definition PROBS_trait :: "int \<rightharpoonup> (bool \<Rightarrow> real)" where
  "PROBS_trait =
     [2 \<mapsto> (\<lambda>t. if t then 0.65 else 0.35),
      1 \<mapsto> (\<lambda>t. if t then 0.56 else 0.44),
      0 \<mapsto> (\<lambda>t. if t then 0.01 else 0.99)]"

definition PARENT_PROB_parent :: "int \<rightharpoonup> (int \<rightharpoonup> real)" where
  "PARENT_PROB_parent =
     [0 \<mapsto> [0 \<mapsto> 1 - PROBS_mutation, 1 \<mapsto> PROBS_mutation],
      1 \<mapsto> [0 \<mapsto> 0.5, 1 \<mapsto> 0.5],
      2 \<mapsto> [0 \<mapsto> PROBS_mutation, 1 \<mapsto> 1 - PROBS_mutation]]"

subsection \<open>People and hypotheses\<close>

text \<open>A row of the pedigree as \<open>load_data\<close> builds it: a blank mother, father or trait
  is \<open>None\<close>.\<close>

record person =
  pname :: string
  mother :: "string option"
  father :: "string option"
  trait :: "bool option"

type_synonym people = "(string \<times> person) list"

text \<open>An entry \<open>{"gene": gene_no, "trait": trait_prop}\<close> of the dictionary \<open>request\<close>.\<close>

record request_entry =
  gene_no :: int
  trait_prop :: bool

type_synonym request = "string \<rightharpoonup> request_entry"

text \<open>The truth value Python gives \<open>people[child]["mother"]\<close>: \<open>None\<close> and the empty
  string are false.\<close>

definition truthy :: "string option \<Rightarrow> bool" where
  "truthy s = (case s of None \<Rightarrow> False | Some v \<Rightarrow> v \<noteq> [])"

text \<open>\<open>request[parent]\<close> for a parent reference that may be \<open>None\<close>, which is no key of
  \<open>request\<close>.\<close>

definition request_get :: "request \<Rightarrow> string option \<Rightarrow> error + request_entry" where
  "request_get request key = (case key of None \<Rightarrow> Inl KeyError | Some k \<Rightarrow> getitem request k)"

text \<open>\<open>PARENT_PROB["parent"][request[parent]["gene"]][k]\<close>.\<close>

definition parent_prob :: "request \<Rightarrow> string option \<Rightarrow> int \<Rightarrow> error + real" where
  "parent_prob request parent k =
     bindE (request_get request parent) (\<lambda>e.
     bindE (getitem PARENT_PROB_parent (gene_no e)) (\<lambda>row.
     getitem row k))"

subsection \<open>The joint probability evaluator\<close>

text \<open>The \<open>if\<close> statement of \<open>child_parent_prob\<close>, lines 206 to 231: the value it
  assigns to \<open>prob\<close>. The chain \<open>if / elif / elif\<close> on the gene count has no \<open>else\<close>
  (the \<open>raise NotImplementedError\<close> of an earlier version is commented out), so a gene
  count outside 0, 1, 2 raises nothing and leaves \<open>prob\<close> unbound: \<open>None\<close> here.\<close>

definition prob_assigned :: "string \<Rightarrow> people \<Rightarrow> request \<Rightarrow> error + real option" where
  "prob_assigned child people request =
     bindE (getitem (map_of people) child) (\<lambda>row.
       if truthy (mother row) then
         (let mum = mother row; dad = father row in
          bindE (getitem request child) (\<lambda>ce.
            let child_gene_no = gene_no ce in
            if child_gene_no = 0 then
              bindE (parent_prob request mum 0) (\<lambda>m0.
              bindE (parent_prob request dad 0) (\<lambda>f0.
              Inr (Some (m0 * f0))))
            else if child_gene_no = 1 then
              bindE (parent_prob request mum 1) (\<lambda>m1.
              bindE (parent_prob request dad 1) (\<lambda>f1.
              Inr (Some (m1 * (1 - f1) + (1 - m1) * f1))))
            else if child_gene_no = 2 then
              bindE (parent_prob request mum 1) (\<lambda>m1.
              bindE (parent_prob request dad 1) (\<lambda>f1.
              Inr (Some (m1 * f1))))
            else Inr None))
       else
         bindE (getitem request child) (\<lambda>ce.
         bindE (getitem PROBS_gene (gene_no ce)) (\<lambda>prob.
         Inr (Some prob))))"

text \<open>\<open>child_parent_prob\<close> as the file has it. Its last line, \<open>return prob\<close> on line
  233, is indented by three spaces, while the blocks around it stand at 0, 4 and 8. Python
  rejects such a line with \<open>IndentationError\<close> when it compiles the file, before any
  statement runs: the function is never defined, and no call of it returns a value. The
  model gives that error as the result of every call. (One space deeper the line would end
  the function body and return \<open>prob\<close>, raising \<open>UnboundLocalError\<close> where \<open>prob\<close> is
  unbound; five spaces deeper it would belong to the \<open>else\<close> block, and the function would
  return \<open>None\<close> for every person with a mother.)\<close>

definition child_parent_prob :: "string \<Rightarrow> people \<Rightarrow> request \<Rightarrow> error + real" where
  "child_parent_prob child people request = Inl IndentationError"

text \<open>The first loop of \<open>joint_probability\<close> and of \<open>update\<close>: the requested
  distribution of every name.\<close>

definition make_request :: "string list \<Rightarrow> string set \<Rightarrow> string set \<Rightarrow> string set \<Rightarrow> request" where
  "make_request names one_gene two_genes have_trait =
     fold (\<lambda>name request.
             request(name \<mapsto>
               \<lparr>gene_no = (if name \<in> one_gene then 1 else if name \<in> two_genes then 2 else 0),
                trait_prop = (if name \<in> have_trait then True else False)\<rparr>))
          names Map.empty"

text \<open>The second loop of \<open>joint_probability\<close>, with \<open>total_prob\<close> as accumulator.\<close>

fun joint_loop :: "people \<Rightarrow> request \<Rightarrow> string list \<Rightarrow> real \<Rightarrow> error + real" where
  "joint_loop people request [] total_prob = Inr total_prob"
| "joint_loop people request (name # names) total_prob =
     bindE (child_parent_prob name people request) (\<lambda>c.
     bindE (getitem request name) (\<lambda>e.
     bindE (getitem PROBS_trait (gene_no e)) (\<lambda>row.
       let current_prob = 1 * c * row (trait_prop e)
       in joint_loop people request names (total_prob * current_prob))))"

definition joint_probability :: "people \<Rightarrow> string set \<Rightarrow> string set \<Rightarrow> string set \<Rightarrow> error + real" where
  "joint_probability people one_gene two_genes have_trait =
     (let names = map fst people;
          request = make_request names one_gene two_genes have_trait
      in joint_loop people request names 1)"

subsection \<open>Enumerating subsets\<close>

text \<open>\<open>itertools.combinations(s, r)\<close>: the subsequences of \<open>s\<close> of length \<open>r\<close>, in
  lexicographic order of their positions.\<close>

fun combinations :: "'a list \<Rightarrow> nat \<Rightarrow> 'a list list" where
  "combinations xs 0 = [[]]"
| "combinations [] (Suc r) = []"
| "combinations (x # xs) (Suc r) = map ((#) x) (combinations xs r) @ combinations xs (Suc r)"

text \<open>\<open>powerset\<close> receives \<open>list(s)\<close>, the elements of the set in the order Python
  iterates over it (each element once), chains the combinations of every length from 0 to
  \<open>len(s)\<close> and turns each into a set.\<close>

definition powerset :: "'a list \<Rightarrow> 'a set list" where
  "powerset s = map set (concat (map (combinations s) [0 ..< length s + 1]))"

subsection \<open>The marginal accumulator\<close>

text \<open>The two inner dictionaries of a person in \<open>probabilities\<close>. They are created with the
  keys 2, 1, 0 and True, False and never gain or lose a key, so they are total functions,
  read and written at those keys only.\<close>

record distribution =
  gene_dist :: "int \<Rightarrow> real"
  trait_dist :: "bool \<Rightarrow> real"

type_synonym probabilities = "(string \<times> distribution) list"

text \<open>The second loop of \<open>update\<close>: both \<open>+=\<close> on the entry of \<open>name\<close>.\<close>

fun update_loop :: "request \<Rightarrow> real \<Rightarrow> string list \<Rightarrow> probabilities \<Rightarrow> error + probabilities" where
  "update_loop request p [] probabilities = Inr probabilities"
| "update_loop request p (name # names) probabilities =
     bindE (getitem request name) (\<lambda>e.
     bindE (getitem (map_of probabilities) name) (\<lambda>d.
       let d1 = d\<lparr>gene_dist := (gene_dist d)(gene_no e := gene_dist d (gene_no e) + p)\<rparr>;
           d2 = d1\<lparr>trait_dist := (trait_dist d1)(trait_prop e := trait_dist d1 (trait_prop e) + p)\<rparr>
       in update_loop request p names (AList.update name d2 probabilities)))"

definition update ::
  "probabilities \<Rightarrow> string set \<Rightarrow> string set \<Rightarrow> string set \<Rightarrow> real \<Rightarrow> error + probabilities" where
  "update probabilities one_gene two_genes have_trait p =
     (let names = map fst probabilities;
          request = make_request names one_gene two_genes have_trait
      in update_loop request p names probabilities)"

text \<open>\<open>normalize\<close>: Python raises \<open>ZeroDivisionError\<close> on a division by zero, of floats
  as of integers. The gene counts are divided first, then the traits.\<close>

fun normalize_loop :: "string list \<Rightarrow> probabilities \<Rightarrow> error + probabilities" where
  "normalize_loop [] probabilities = Inr probabilities"
| "normalize_loop (person # persons) probabilities =
     bindE (getitem (map_of probabilities) person) (\<lambda>d.
       let gene_sum = gene_dist d 0 + gene_dist d 1 + gene_dist d 2;
           trait_sum = trait_dist d False + trait_dist d True
       in if gene_sum = 0 then Inl ZeroDivisionError
          else
            let d1 = d\<lparr>gene_dist := (gene_dist d)
                         (0 := gene_dist d 0 / gene_sum,
                          1 := gene_dist d 1 / gene_sum,
                          2 := gene_dist d 2 / gene_sum)\<rparr>
            in if trait_sum = 0 then Inl ZeroDivisionError
               else
                 let d2 = d1\<lparr>trait_dist := (trait_dist d1)
                               (True := trait_dist d1 True / trait_sum,
                                False := trait_dist d1 False / trait_sum)\<rparr>
                 in normalize_loop persons (AList.update person d2 probabilities))"

definition normalize :: "probabilities \<Rightarrow> error + probabilities" where
  "normalize probabilities = normalize_loop (map fst probabilities) probabilities"

subsection \<open>The inference driver\<close>

text \<open>The dictionary \<open>probabilities\<close> as \<open>main\<close> creates it.\<close>

definition initial_probabilities :: "people \<Rightarrow> probabilities" where
  "initial_probabilities people =
     map (\<lambda>person. (person, \<lparr>gene_dist = (\<lambda>_. 0), trait_dist = (\<lambda>_. 0)\<rparr>)) (map fst people)"

text \<open>\<open>fails_evidence\<close>: \<open>person\<close> ranges over the keys of \<open>people\<close>, so
  \<open>people[person]\<close> is the row stored under that key.\<close>

definition fails_evidence :: "people \<Rightarrow> string set \<Rightarrow> bool" where
  "fails_evidence people have_trait =
     list_ex (\<lambda>(person, row). trait row \<noteq> None \<and> trait row \<noteq> Some (person \<in> have_trait)) people"

text \<open>The two inner loops of \<open>main\<close>: every \<open>one_gene\<close> of \<open>powerset(names)\<close> with
  every \<open>two_genes\<close> of \<open>powerset(names - one_gene)\<close>. The order in which Python iterates
  over a set is not specified; the model takes the order of the pedigree.\<close>

definition gene_hypotheses :: "string list \<Rightarrow> (string set \<times> string set) list" where
  "gene_hypotheses names =
     concat (map (\<lambda>one_gene.
                    map (\<lambda>two_genes. (one_gene, two_genes))
                        (powerset (filter (\<lambda>n. n \<notin> one_gene) names)))
                 (powerset names))"

text \<open>The loops of \<open>main\<close> when no set \<open>have_trait\<close> is skipped, and the loops as they
  are, in the order in which \<open>main\<close> reaches \<open>joint_probability\<close> and \<open>update\<close>.\<close>

definition all_hypotheses :: "string list \<Rightarrow> (string set \<times> string set \<times> string set) list" where
  "all_hypotheses names =
     concat (map (\<lambda>have_trait.
                    map (\<lambda>(one_gene, two_genes). (one_gene, two_genes, have_trait))
                        (gene_hypotheses names))
                 (powerset names))"

definition hypotheses :: "people \<Rightarrow> (string set \<times> string set \<times> string set) list" where
  "hypotheses people =
     (let names = map fst people in
      concat (map (\<lambda>have_trait.
                     if fails_evidence people have_trait then []
                     else map (\<lambda>(one_gene, two_genes). (one_gene, two_genes, have_trait))
                              (gene_hypotheses names))
                  (powerset names)))"

text \<open>The body of the loops of \<open>main\<close>, lines 102 and 103, for every hypothesis in
  turn. The first argument is the evaluator: \<open>main\<close> calls
  \<open>joint_probability(people, one_gene, two_genes, have_trait)\<close>.\<close>

fun accumulate ::
  "(string set \<Rightarrow> string set \<Rightarrow> string set \<Rightarrow> error + real) \<Rightarrow>
   (string set \<times> string set \<times> string set) list \<Rightarrow> probabilities \<Rightarrow> error + probabilities" where
  "accumulate evaluate [] probabilities = Inr probabilities"
| "accumulate evaluate ((one_gene, two_genes, have_trait) # hs) probabilities =
     bindE (evaluate one_gene two_genes have_trait) (\<lambda>p.
     bindE (update probabilities one_gene two_genes have_trait p) (\<lambda>probabilities'.
     accumulate evaluate hs probabilities'))"

definition main :: "people \<Rightarrow> error + probabilities" where
  "main people =
     bindE (accumulate (joint_probability people) (hypotheses people)
              (initial_probabilities people))
       normalize"

subsection \<open>The formulas as the specification words them\<close>

text \<open>The probability that a parent with the given gene count transmits the mutant
  allele, the parent-conditioned probability of a child's gene count, and the gene prior.\<close>

definition spec_transmit :: "int \<Rightarrow> real" where
  "spec_transmit parent_genes =
     (if parent_genes = 0 then 0.01 else if parent_genes = 1 then 0.5 else 1 - 0.01)"

definition spec_inherit :: "int \<Rightarrow> real \<Rightarrow> real \<Rightarrow> real" where
  "spec_inherit k m f =
     (if k = 0 then (1 - m) * (1 - f)
      else if k = 1 then m * (1 - f) + (1 - m) * f
      else m * f)"

definition spec_gene_prior :: "int \<Rightarrow> real" where
  "spec_gene_prior k = (if k = 0 then 0.96 else if k = 1 then 0.03 else 0.01)"

subsection \<open>Hypotheses and an example pedigree\<close>

text \<open>The gene count that the sets \<open>one_gene\<close> and \<open>two_genes\<close> give a person, as both
  \<open>joint_probability\<close> and \<open>update\<close> read it.\<close>

definition hypothesis_gene :: "string set \<Rightarrow> string set \<Rightarrow> string \<Rightarrow> int" where
  "hypothesis_gene one_gene two_genes person =
     (if person \<in> one_gene then 1 else if person \<in> two_genes then 2 else 0)"

text \<open>A family of three: a child without an observation, a father with the trait and a
  mother without it.\<close>

definition family0 :: people where
  "family0 =
     [(''Harry'', \<lparr>pname = ''Harry'', mother = Some ''Lily'', father = Some ''James'', trait = None\<rparr>),
      (''James'', \<lparr>pname = ''James'', mother = None, father = None, trait = Some True\<rparr>),
      (''Lily'', \<lparr>pname = ''Lily'', mother = None, father = None, trait = Some False\<rparr>)]"

subsection \<open>Notions for the accumulator\<close>

text \<open>What the two \<open>+=\<close> of \<open>update\<close> do to the entry of one person, the totals
  \<open>gene_sum\<close> and \<open>trait_sum\<close> that \<open>normalize\<close> computes, and the entry it stores.\<close>

definition bump :: "int \<Rightarrow> bool \<Rightarrow> real \<Rightarrow> distribution \<Rightarrow> distribution" where
  "bump k b p d =
     d\<lparr>gene_dist := (gene_dist d)(k := gene_dist d k + p),
       trait_dist := (trait_dist d)(b := trait_dist d b + p)\<rparr>"

definition gene_total :: "distribution \<Rightarrow> real" where
  "gene_total d = gene_dist d 0 + gene_dist d 1 + gene_dist d 2"

definition trait_total :: "distribution \<Rightarrow> real" where
  "trait_total d = trait_dist d False + trait_dist d True"

definition normalized :: "distribution \<Rightarrow> distribution" where
  "normalized d =
     d\<lparr>gene_dist := (gene_dist d)
          (0 := gene_dist d 0 / gene_total d,
           1 := gene_dist d 1 / gene_total d,
           2 := gene_dist d 2 / gene_total d),
       trait_dist := (trait_dist d)
          (True := trait_dist d True / trait_total d,
           False := trait_dist d False / trait_total d)\<rparr>"

section \<open>Properties\<close>

subsection \<open>Reading the tables\<close>

lemma bindE_Inr [simp]: "bindE (Inr v) f = f v"
  by (simp add: bindE_def)

lemma bindE_Inl [simp]: "bindE (Inl e) f = Inl e"
  by (simp add: bindE_def)

lemma parent_prob_Some:
  assumes "request mum = Some em" and "gene_no em \<in> {0, 1, 2}"
  shows "parent_prob request (Some mum) 1 =
           Inr (if gene_no em = 0 then 0.01 else if gene_no em = 1 then 0.5 else 0.99)"
    and "parent_prob request (Some mum) 0 =
           Inr (if gene_no em = 0 then 0.99 else if gene_no em = 1 then 0.5 else 0.01)"
  using assms
  by (auto simp: parent_prob_def request_get_def getitem_def PARENT_PROB_parent_def
      PROBS_mutation_def)


lemma fold_request:
  "fold (\<lambda>name request. request(name \<mapsto> e name)) names m =
     (\<lambda>n. if n \<in> set names then Some (e n) else m n)"
  by (induction names arbitrary: m) (auto simp: fun_eq_iff)

lemma make_request_apply:
  "make_request names one_gene two_genes have_trait n =
     (if n \<in> set names
      then Some \<lparr>gene_no = hypothesis_gene one_gene two_genes n, trait_prop = (n \<in> have_trait)\<rparr>
      else None)"
  unfolding make_request_def hypothesis_gene_def by (subst fold_request) simp

lemma hypothesis_gene_range: "hypothesis_gene one_gene two_genes n \<in> {0, 1, 2}"
  by (simp add: hypothesis_gene_def)

subsection \<open>The statement that assigns \<open>prob\<close>\<close>

lemma prob_assigned_founder:
  assumes "map_of people child = Some row" and "\<not> truthy (mother row)"
    and "request child = Some ce" and "gene_no ce \<in> {0, 1, 2}"
  shows "prob_assigned child people request = Inr (Some (spec_gene_prior (gene_no ce)))"
  using assms by (auto simp: prob_assigned_def getitem_def PROBS_gene_def spec_gene_prior_def)

lemma prob_assigned_child:
  assumes "map_of people child = Some row" and "mother row = Some mum" and "mum \<noteq> []"
    and "father row = Some dad"
    and "request child = Some ce"
    and "request mum = Some em" and "request dad = Some ed"
    and "gene_no em \<in> {0, 1, 2}" and "gene_no ed \<in> {0, 1, 2}"
  shows "prob_assigned child people request =
           Inr (if gene_no ce \<in> {0, 1, 2}
                then Some (spec_inherit (gene_no ce) (spec_transmit (gene_no em))
                             (spec_transmit (gene_no ed)))
                else None)"
  using assms(8,9)
  by (auto simp: prob_assigned_def getitem_def truthy_def assms(1-7) spec_inherit_def
      parent_prob_Some[of request mum em] parent_prob_Some[of request dad ed] spec_transmit_def)

lemma prob_assigned_unbound:
  assumes "map_of people child = Some row" and "truthy (mother row)"
    and "request child = Some ce" and "gene_no ce \<notin> {0, 1, 2}"
  shows "prob_assigned child people request = Inr None"
  using assms by (auto simp: prob_assigned_def getitem_def)

lemma spec_inherit_sum: "spec_inherit 0 m f + spec_inherit 1 m f + spec_inherit 2 m f = 1"
  by (simp add: spec_inherit_def algebra_simps)

subsection \<open>The evaluator returns nothing\<close>

lemma joint_loop_fails:
  "names \<noteq> [] \<Longrightarrow> joint_loop people request names acc = Inl IndentationError"
  by (cases names) (simp_all add: child_parent_prob_def)

text \<open>
  Claim C1. As the file stands, \<open>joint_probability\<close> returns no product: for every
  pedigree with at least one person and every hypothesis, its first call of
  \<open>child_parent_prob\<close> ends it with \<open>IndentationError\<close>.
\<close>

theorem joint_probability_returns_nothing:
  assumes "people \<noteq> []"
  shows "joint_probability people one_gene two_genes have_trait = Inl IndentationError"
  using assms by (simp add: joint_probability_def Let_def joint_loop_fails)

theorem joint_probability_returns_nothing_witness:
  "joint_probability family0 {''Harry''} {''James''} {''James''} = Inl IndentationError"
  using joint_probability_returns_nothing[of family0 "{''Harry''}" "{''James''}" "{''James''}"]
  by (simp add: family0_def)



text \<open>
  Claim C9. As the file stands, a gene count of 3 requested for a person with a mother
  meets no guard: the call of \<open>child_parent_prob\<close> ends with \<open>IndentationError\<close>, as
  every call does; and on a valid hypothesis of the example family the evaluator returns
  no number.
\<close>

theorem invalid_gene_count_meets_no_guard:
  "child_parent_prob ''Harry'' family0
     [''Lily'' \<mapsto> \<lparr>gene_no = 0, trait_prop = False\<rparr>, ''James'' \<mapsto> \<lparr>gene_no = 2, trait_prop = True\<rparr>,
      ''Harry'' \<mapsto> \<lparr>gene_no = 3, trait_prop = False\<rparr>] = Inl IndentationError \<and>
   (\<forall>p. joint_probability family0 {} {} {} \<noteq> Inr p)"
  by (simp add: child_parent_prob_def joint_probability_def Let_def family0_def)

subsection \<open>The powerset\<close>

lemma combinations_too_long: "length xs < r \<Longrightarrow> combinations xs r = []"
  by (induction xs r rule: combinations.induct) auto

lemma mset_combinations_upto:
  "mset (concat (map (combinations (x # xs)) [0 ..< Suc n])) =
     mset (map ((#) x) (concat (map (combinations xs) [0 ..< n]))) +
     mset (concat (map (combinations xs) [0 ..< Suc n]))"
  by (induction n) (simp_all add: map_concat)

lemma mset_all_combinations:
  "mset (concat (map (combinations xs) [0 ..< Suc (length xs)])) = mset (subseqs xs)"
proof (induction xs)
  case Nil
  then show ?case by simp
next
  case (Cons x xs)
  have "mset (concat (map (combinations (x # xs)) [0 ..< Suc (Suc (length xs))])) =
        mset (map ((#) x) (concat (map (combinations xs) [0 ..< Suc (length xs)]))) +
        mset (concat (map (combinations xs) [0 ..< Suc (Suc (length xs))]))"
    by (rule mset_combinations_upto)
  also have "concat (map (combinations xs) [0 ..< Suc (Suc (length xs))]) =
             concat (map (combinations xs) [0 ..< Suc (length xs)])"
    by (simp add: combinations_too_long)
  finally show ?case
    using Cons.IH by (simp add: Let_def del: upt_Suc)
qed

lemma mset_powerset: "mset (powerset xs) = mset (map set (subseqs xs))"
  using mset_all_combinations[of xs] by (simp add: powerset_def del: upt_Suc)

lemma length_powerset: "length (powerset xs) = 2 ^ length xs"
  using arg_cong[OF mset_powerset, of size xs] by (simp add: length_subseqs)

lemma set_powerset: "set (powerset xs) = Pow (set xs)"
  using arg_cong[OF mset_powerset, of set_mset xs] subseqs_powset[of xs] by simp

lemma distinct_powerset: "distinct xs \<Longrightarrow> distinct (powerset xs)"
  using mset_eq_imp_distinct_iff[OF mset_powerset, of xs] distinct_set_subseqs by blast

lemma count_list_distinct:
  "distinct xs \<Longrightarrow> count_list xs x = (if x \<in> set xs then 1 else 0)"
  by (induction xs) auto

text \<open>
  Claim C10. For a set of \<open>n\<close> elements, listed once each in \<open>s\<close>, \<open>powerset\<close> returns a
  list of \<open>2 ^ n\<close> sets in which every subset of \<open>s\<close> occurs exactly once and nothing
  else occurs.
\<close>

theorem powerset_correct:
  assumes "distinct s"
  shows "length (powerset s) = 2 ^ length s \<and>
         (\<forall>A. count_list (powerset s) A = (if A \<subseteq> set s then 1 else 0))"
  using distinct_powerset[OF assms]
  by (simp add: length_powerset count_list_distinct set_powerset)

theorem powerset_correct_witness:
  "powerset [1, 2, 3 :: int] = [{}, {1}, {2}, {3}, {1, 2}, {1, 3}, {2, 3}, {1, 2, 3}] \<and>
   length (powerset [1, 2, 3 :: int]) = 8 \<and> count_list (powerset [1, 2, 3 :: int]) {1, 3} = 1"
proof -
  have d: "distinct [1, 2, 3 :: int]" by simp
  have v: "powerset [1, 2, 3 :: int] = [{}, {1}, {2}, {3}, {1, 2}, {1, 3}, {2, 3}, {1, 2, 3}]"
    by (simp add: powerset_def upt_rec numeral_2_eq_2 numeral_3_eq_3)
  from powerset_correct[OF d]
  have "length (powerset [1, 2, 3 :: int]) = 2 ^ length [1, 2, 3 :: int]"
    and "count_list (powerset [1, 2, 3 :: int]) {1, 3} = (if {1, 3} \<subseteq> set [1, 2, 3 :: int] then 1 else 0)"
    by blast+
  then show ?thesis using v by simp
qed

subsection \<open>The enumeration of hypotheses\<close>

lemma distinct_concat_map:
  assumes "distinct xs" and "\<And>x. x \<in> set xs \<Longrightarrow> distinct (f x)"
    and "\<And>x a y b. h x a = h y b \<Longrightarrow> x = y \<and> a = b"
  shows "distinct (concat (map (\<lambda>x. map (h x) (f x)) xs))"
  using assms(1,2)
proof (induction xs)
  case Nil
  then show ?case by simp
next
  case (Cons x xs)
  have "inj_on (h x) (set (f x))"
    using assms(3) by (auto simp: inj_on_def)
  then have "distinct (map (h x) (f x))"
    using Cons.prems by (simp add: distinct_map)
  moreover have "set (map (h x) (f x)) \<inter> set (concat (map (\<lambda>x. map (h x) (f x)) xs)) = {}"
    using Cons.prems(1) assms(3) by fastforce
  ultimately show ?case using Cons by simp
qed

lemma set_gene_hypotheses:
  "set (gene_hypotheses names) = {(a, b). a \<subseteq> set names \<and> b \<subseteq> set names - a}"
  by (auto simp: gene_hypotheses_def set_powerset)

lemma distinct_gene_hypotheses:
  assumes "distinct names"
  shows "distinct (gene_hypotheses names)"
  unfolding gene_hypotheses_def
  by (rule distinct_concat_map) (auto simp: distinct_powerset assms)

lemma sum_subseqs_pow:
  assumes "distinct xs"
  shows "(\<Sum>ys\<leftarrow>subseqs xs. 2 ^ length (filter (\<lambda>n. n \<notin> set ys) xs)) = (3::nat) ^ length xs"
  using assms
proof (induction xs)
  case Nil
  then show ?case by simp
next
  case (Cons x xs)
  have in_sub: "set ys \<subseteq> set xs" if "ys \<in> set (subseqs xs)" for ys
    using that subseqs_powset[of xs] by blast
  have a: "(\<Sum>ys\<leftarrow>subseqs xs. 2 ^ length (filter (\<lambda>n. n \<notin> set (x # ys)) (x # xs))) =
           (\<Sum>ys\<leftarrow>subseqs xs. (2::nat) ^ length (filter (\<lambda>n. n \<notin> set ys) xs))"
  proof (rule arg_cong[where f = sum_list], rule map_cong[OF refl])
    fix ys assume "ys \<in> set (subseqs xs)"
    have "filter (\<lambda>n. n \<notin> set (x # ys)) xs = filter (\<lambda>n. n \<notin> set ys) xs"
      using Cons.prems by (intro filter_cong) auto
    then show "(2::nat) ^ length (filter (\<lambda>n. n \<notin> set (x # ys)) (x # xs)) =
               2 ^ length (filter (\<lambda>n. n \<notin> set ys) xs)"
      by simp
  qed
  have b: "(\<Sum>ys\<leftarrow>subseqs xs. 2 ^ length (filter (\<lambda>n. n \<notin> set ys) (x # xs))) =
           (\<Sum>ys\<leftarrow>subseqs xs. 2 * (2::nat) ^ length (filter (\<lambda>n. n \<notin> set ys) xs))"
  proof (rule arg_cong[where f = sum_list], rule map_cong[OF refl])
    fix ys assume "ys \<in> set (subseqs xs)"
    then have "x \<notin> set ys" using in_sub Cons.prems by auto
    then show "(2::nat) ^ length (filter (\<lambda>n. n \<notin> set ys) (x # xs)) =
               2 * 2 ^ length (filter (\<lambda>n. n \<notin> set ys) xs)"
      by simp
  qed
  have "(\<Sum>ys\<leftarrow>subseqs (x # xs). 2 ^ length (filter (\<lambda>n. n \<notin> set ys) (x # xs))) =
        (\<Sum>ys\<leftarrow>subseqs xs. 2 ^ length (filter (\<lambda>n. n \<notin> set (x # ys)) (x # xs))) +
        (\<Sum>ys\<leftarrow>subseqs xs. (2::nat) ^ length (filter (\<lambda>n. n \<notin> set ys) (x # xs)))"
    by (simp add: Let_def comp_def)
  also have "\<dots> = 3 * (\<Sum>ys\<leftarrow>subseqs xs. (2::nat) ^ length (filter (\<lambda>n. n \<notin> set ys) xs))"
    unfolding a b by (simp add: sum_list_const_mult)
  finally show ?case using Cons by simp
qed

lemma length_gene_hypotheses:
  assumes "distinct names"
  shows "length (gene_hypotheses names) = 3 ^ length names"
proof -
  let ?f = "\<lambda>one_gene. (2::nat) ^ length (filter (\<lambda>n. n \<notin> one_gene) names)"
  have "length (gene_hypotheses names) =
        sum_list (map (\<lambda>one_gene. length (powerset (filter (\<lambda>n. n \<notin> one_gene) names))) (powerset names))"
    unfolding gene_hypotheses_def length_concat map_map comp_def length_map ..
  also have "\<dots> = sum_list (map ?f (powerset names))"
    unfolding length_powerset ..
  also have "\<dots> = sum_mset (image_mset ?f (mset (powerset names)))"
    unfolding mset_map[symmetric] sum_mset_sum_list ..
  also have "\<dots> = sum_mset (image_mset ?f (mset (map set (subseqs names))))"
    by (simp only: mset_powerset)
  also have "\<dots> = sum_list (map ?f (map set (subseqs names)))"
    unfolding mset_map[symmetric] sum_mset_sum_list ..
  also have "\<dots> = 3 ^ length names"
    unfolding map_map comp_def using sum_subseqs_pow[OF assms] .
  finally show ?thesis .
qed

lemma set_all_hypotheses:
  "set (all_hypotheses names) =
     {(a, b, c). a \<subseteq> set names \<and> b \<subseteq> set names - a \<and> c \<subseteq> set names}"
  by (auto simp: all_hypotheses_def set_powerset set_gene_hypotheses)

lemma distinct_all_hypotheses:
  assumes "distinct names"
  shows "distinct (all_hypotheses names)"
  unfolding all_hypotheses_def
  by (rule distinct_concat_map) (auto simp: distinct_powerset distinct_gene_hypotheses assms)

lemma length_all_hypotheses:
  assumes "distinct names"
  shows "length (all_hypotheses names) = 3 ^ length names * 2 ^ length names"
  by (simp add: all_hypotheses_def length_concat comp_def length_gene_hypotheses[OF assms]
      sum_list_triv length_powerset)

lemma hypotheses_filter:
  "hypotheses people =
     filter (\<lambda>(one_gene, two_genes, have_trait). \<not> fails_evidence people have_trait)
       (all_hypotheses (map fst people))"
proof -
  have "concat (map (\<lambda>ht. if F ht then [] else map (\<lambda>(a, b). (a, b, ht)) G) L) =
        filter (\<lambda>(a, b, ht). \<not> F ht) (concat (map (\<lambda>ht. map (\<lambda>(a, b). (a, b, ht)) G) L))"
    for F :: "string set \<Rightarrow> bool" and G :: "(string set \<times> string set) list" and L
    by (induction L) (auto simp: filter_map comp_def split_def)
  then show ?thesis by (simp add: hypotheses_def all_hypotheses_def Let_def)
qed

lemma unique_hypothesis:
  assumes g: "\<forall>n \<in> S. g n \<in> {0, 1, 2}"
  shows "{(a, b, c). \<forall>n \<in> S. hypothesis_gene a b n = g n \<and> (n \<in> c) = t n} \<inter>
         {(a, b, c). a \<subseteq> S \<and> b \<subseteq> S - a \<and> c \<subseteq> S} =
         {({n \<in> S. g n = 1}, {n \<in> S. g n = 2}, {n \<in> S. t n})}"
    (is "?L = {(?A, ?B, ?C)}")
proof (rule set_eqI)
  fix h :: "string set \<times> string set \<times> string set"
  obtain a b c where h: "h = (a, b, c)" by (cases h)
  show "h \<in> ?L \<longleftrightarrow> h \<in> {(?A, ?B, ?C)}"
  proof
    assume "h \<in> ?L"
    then have ag: "\<And>n. n \<in> S \<Longrightarrow> hypothesis_gene a b n = g n"
      and ct: "\<And>n. n \<in> S \<Longrightarrow> (n \<in> c) = t n"
      and sub: "a \<subseteq> S" "b \<subseteq> S - a" "c \<subseteq> S"
      by (auto simp: h)
    have "a = ?A"
    proof (rule set_eqI)
      fix n show "n \<in> a \<longleftrightarrow> n \<in> ?A"
        using ag[of n] sub by (auto simp: hypothesis_gene_def split: if_splits)
    qed
    moreover have "b = ?B"
    proof (rule set_eqI)
      fix n show "n \<in> b \<longleftrightarrow> n \<in> ?B"
        using ag[of n] sub by (auto simp: hypothesis_gene_def split: if_splits)
    qed
    moreover have "c = ?C"
      using ct sub by auto
    ultimately show "h \<in> {(?A, ?B, ?C)}" by (simp add: h)
  next
    assume "h \<in> {(?A, ?B, ?C)}"
    then have "a = ?A" "b = ?B" "c = ?C" by (simp_all add: h)
    then show "h \<in> ?L"
      using g by (auto simp: h hypothesis_gene_def)
  qed
qed

text \<open>
  Claim C2. For \<open>n\<close> people, the loops of \<open>main\<close> run, before the evidence filter,
  through \<open>3 ^ n * 2 ^ n\<close> hypotheses; every assignment of a gene count in 0, 1, 2 and a
  trait status to every person is the assignment of exactly one of them; in every
  hypothesis the one-copy and two-copy groups are disjoint sets of people; and the
  hypotheses that \<open>main\<close> evaluates are those that pass the evidence filter, in the same
  order.
\<close>

theorem enumeration_exhaustive:
  assumes "distinct (map fst people)" and "\<forall>n \<in> set (map fst people). g n \<in> {0, 1, 2}"
  shows "length (all_hypotheses (map fst people)) = 3 ^ length people * 2 ^ length people \<and>
         length (filter (\<lambda>(one_gene, two_genes, have_trait).
                    \<forall>n \<in> set (map fst people).
                      hypothesis_gene one_gene two_genes n = g n \<and> (n \<in> have_trait) = t n)
                  (all_hypotheses (map fst people))) = 1 \<and>
         (\<forall>(one_gene, two_genes, have_trait) \<in> set (all_hypotheses (map fst people)).
            one_gene \<inter> two_genes = {} \<and>
            one_gene \<union> two_genes \<union> have_trait \<subseteq> set (map fst people)) \<and>
         hypotheses people =
           filter (\<lambda>(one_gene, two_genes, have_trait). \<not> fails_evidence people have_trait)
             (all_hypotheses (map fst people))"
proof (intro conjI)
  let ?names = "map fst people"
  show "length (all_hypotheses ?names) = 3 ^ length people * 2 ^ length people"
    using length_all_hypotheses[OF assms(1)] by simp
  let ?P = "\<lambda>(one_gene, two_genes, have_trait).
              \<forall>n \<in> set ?names. hypothesis_gene one_gene two_genes n = g n \<and> (n \<in> have_trait) = t n"
  have "length (filter ?P (all_hypotheses ?names)) = card ({h. ?P h} \<inter> set (all_hypotheses ?names))"
    using distinct_all_hypotheses[OF assms(1)] by (rule distinct_length_filter)
  also have "{h. ?P h} \<inter> set (all_hypotheses ?names) =
             {({n \<in> set ?names. g n = 1}, {n \<in> set ?names. g n = 2}, {n \<in> set ?names. t n})}"
    using unique_hypothesis[OF assms(2), of t] unfolding set_all_hypotheses
    by (simp add: split_def Collect_conj_eq[symmetric] del: Collect_conj_eq)
  finally show "length (filter ?P (all_hypotheses ?names)) = 1" by simp
  show "\<forall>(one_gene, two_genes, have_trait) \<in> set (all_hypotheses ?names).
          one_gene \<inter> two_genes = {} \<and> one_gene \<union> two_genes \<union> have_trait \<subseteq> set ?names"
    unfolding set_all_hypotheses by auto
  show "hypotheses people =
          filter (\<lambda>(one_gene, two_genes, have_trait). \<not> fails_evidence people have_trait)
            (all_hypotheses ?names)"
    by (rule hypotheses_filter)
qed

theorem enumeration_exhaustive_witness:
  "length (all_hypotheses (map fst family0)) = 216 \<and>
   length (filter (\<lambda>(one_gene, two_genes, have_trait).
              \<forall>n \<in> set (map fst family0).
                hypothesis_gene one_gene two_genes n = (if n = ''Harry'' then 1 else 0) \<and>
                (n \<in> have_trait) = (n = ''James''))
            (all_hypotheses (map fst family0))) = 1"
proof -
  have d: "distinct (map fst family0)"
    by (simp add: family0_def)
  have r: "\<forall>n \<in> set (map fst family0). (if n = ''Harry'' then 1 else (0::int)) \<in> {0, 1, 2}"
    by simp
  have l: "length family0 = 3"
    by (simp add: family0_def)
  show ?thesis
    using enumeration_exhaustive[OF d r, of "\<lambda>n. n = ''James''"] unfolding l by simp
qed

subsection \<open>The accumulator in closed form\<close>

lemma alist_update_map:
  assumes "distinct (map fst al)" and "map_of al k = Some v0"
  shows "AList.update k v al = map (\<lambda>(n, d). (n, if n = k then v else d)) al"
  using assms
proof (induction al)
  case Nil
  then show ?case by simp
next
  case (Cons a al)
  obtain n d where a: "a = (n, d)" by (cases a)
  show ?case
  proof (cases "n = k")
    case True
    then have "k \<notin> fst ` set al" using Cons.prems a by auto
    then have "map (\<lambda>(n, d). (n, if n = k then v else d)) al = al"
      by (induction al) auto
    then show ?thesis using True a by simp
  next
    case False
    then show ?thesis using Cons a by simp
  qed
qed

lemma update_loop_closed:
  assumes "distinct (map fst probs)" and "distinct ns" and "set ns \<subseteq> fst ` set probs"
    and "\<And>n. n \<in> set ns \<Longrightarrow> request n = Some (e n)"
  shows "update_loop request p ns probs =
           Inr (map (\<lambda>(n, d). (n, if n \<in> set ns
                                   then bump (gene_no (e n)) (trait_prop (e n)) p d else d)) probs)"
  using assms
proof (induction ns arbitrary: probs)
  case Nil
  then show ?case by simp
next
  case (Cons name ns)
  from Cons.prems(3) obtain d where d: "map_of probs name = Some d"
    by (metis list.set_intros(1) subsetD weak_map_of_SomeI[OF _] imageE prod.collapse map_of_eq_None_iff not_Some_eq)
  let ?d2 = "bump (gene_no (e name)) (trait_prop (e name)) p d"
  let ?probs1 = "AList.update name ?d2 probs"
  have p1: "?probs1 = map (\<lambda>(n, d'). (n, if n = name then ?d2 else d')) probs"
    by (rule alist_update_map[OF Cons.prems(1) d])
  have keys: "map fst ?probs1 = map fst probs"
    unfolding p1 by (simp add: comp_def split_def)
  have dd: "d' = d" if "(name, d') \<in> set probs" for d'
    using that d Cons.prems(1) by (auto dest: map_of_SomeD eq_key_imp_eq_value)
  have IH: "update_loop request p ns ?probs1 =
              Inr (map (\<lambda>(n, d). (n, if n \<in> set ns
                                   then bump (gene_no (e n)) (trait_prop (e n)) p d else d)) ?probs1)"
  proof (rule Cons.IH)
    show "distinct (map fst ?probs1)" using Cons.prems(1) by (simp only: keys)
    show "distinct ns" using Cons.prems(2) by simp
    have "fst ` set ?probs1 = fst ` set probs"
      using arg_cong[OF keys, of set] by simp
    then show "set ns \<subseteq> fst ` set ?probs1" using Cons.prems(3) by simp
    show "\<And>n. n \<in> set ns \<Longrightarrow> request n = Some (e n)" using Cons.prems(4) by simp
  qed
  have step: "update_loop request p (name # ns) probs = update_loop request p ns ?probs1"
    using Cons.prems(4)[of name] d by (simp add: getitem_def bump_def Let_def)
  have "map (\<lambda>(n, d). (n, if n \<in> set ns
                                   then bump (gene_no (e n)) (trait_prop (e n)) p d else d)) ?probs1 =
        map (\<lambda>(n, d). (n, if n \<in> set (name # ns)
                                   then bump (gene_no (e n)) (trait_prop (e n)) p d else d)) probs"
    unfolding p1 map_map by (rule map_cong[OF refl]) (use Cons.prems(2) dd in auto)
  then show ?case using step IH by simp
qed

lemma map_of_keys:
  assumes "n \<in> fst ` set al"
  shows "\<exists>v. map_of al n = Some v"
  using assms by (induction al) auto

lemma update_closed:
  assumes "distinct (map fst probs)"
  shows "update probs one_gene two_genes have_trait p =
           Inr (map (\<lambda>(n, d). (n, bump (hypothesis_gene one_gene two_genes n) (n \<in> have_trait) p d))
                  probs)"
proof -
  let ?e = "\<lambda>n. \<lparr>gene_no = hypothesis_gene one_gene two_genes n, trait_prop = (n \<in> have_trait)\<rparr>"
  have "update_loop (make_request (map fst probs) one_gene two_genes have_trait) p (map fst probs) probs =
          Inr (map (\<lambda>(n, d). (n, if n \<in> set (map fst probs)
                                   then bump (gene_no (?e n)) (trait_prop (?e n)) p d else d)) probs)"
    by (rule update_loop_closed[OF assms assms]) (auto simp: make_request_apply)
  also have "map (\<lambda>(n, d). (n, if n \<in> set (map fst probs)
                                   then bump (gene_no (?e n)) (trait_prop (?e n)) p d else d)) probs =
             map (\<lambda>(n, d). (n, bump (hypothesis_gene one_gene two_genes n) (n \<in> have_trait) p d)) probs"
    by (rule map_cong[OF refl]) force
  finally show ?thesis by (simp add: update_def Let_def)
qed

lemma normalize_loop_closed:
  assumes "distinct (map fst probs)" and "distinct ns" and "set ns \<subseteq> fst ` set probs"
  shows "normalize_loop ns probs =
           (if \<exists>n \<in> set ns. \<exists>d. map_of probs n = Some d \<and> (gene_total d = 0 \<or> trait_total d = 0)
            then Inl ZeroDivisionError
            else Inr (map (\<lambda>(n, d). (n, if n \<in> set ns then normalized d else d)) probs))"
  using assms
proof (induction ns arbitrary: probs)
  case Nil
  then show ?case by simp
next
  case (Cons name ns)
  from Cons.prems(3) obtain d where d: "map_of probs name = Some d"
    using map_of_keys[of name probs] by auto
  show ?case
  proof (cases "gene_total d = 0 \<or> trait_total d = 0")
    case True
    then show ?thesis
      using d by (auto simp: getitem_def gene_total_def trait_total_def Let_def)
  next
    case False
    let ?probs1 = "AList.update name (normalized d) probs"
    have p1: "?probs1 = map (\<lambda>(n, d'). (n, if n = name then normalized d else d')) probs"
      by (rule alist_update_map[OF Cons.prems(1) d])
    have keys: "map fst ?probs1 = map fst probs"
      unfolding p1 by (simp add: comp_def split_def)
    have dd: "d' = d" if "(name, d') \<in> set probs" for d'
      using that d Cons.prems(1) by (auto dest: map_of_SomeD eq_key_imp_eq_value)
    have other: "map_of ?probs1 n = map_of probs n" if "n \<noteq> name" for n
      using that by (simp add: update_conv)
    have step: "normalize_loop (name # ns) probs = normalize_loop ns ?probs1"
      using False d by (simp add: getitem_def gene_total_def trait_total_def Let_def normalized_def)
    have IH: "normalize_loop ns ?probs1 =
           (if \<exists>n \<in> set ns. \<exists>d. map_of ?probs1 n = Some d \<and> (gene_total d = 0 \<or> trait_total d = 0)
            then Inl ZeroDivisionError
            else Inr (map (\<lambda>(n, d). (n, if n \<in> set ns then normalized d else d)) ?probs1))"
    proof (rule Cons.IH)
      show "distinct (map fst ?probs1)" using Cons.prems(1) by (simp only: keys)
      show "distinct ns" using Cons.prems(2) by simp
      have "fst ` set ?probs1 = fst ` set probs"
        using arg_cong[OF keys, of set] by simp
      then show "set ns \<subseteq> fst ` set ?probs1" using Cons.prems(3) by simp
    qed
    have cond: "(\<exists>n \<in> set ns. \<exists>d. map_of ?probs1 n = Some d \<and> (gene_total d = 0 \<or> trait_total d = 0)) \<longleftrightarrow>
                (\<exists>n \<in> set (name # ns). \<exists>d. map_of probs n = Some d \<and> (gene_total d = 0 \<or> trait_total d = 0))"
    proof -
      have ne: "n \<noteq> name" if "n \<in> set ns" for n using that Cons.prems(2) by auto
      have "(\<exists>n \<in> set ns. \<exists>d. map_of ?probs1 n = Some d \<and> (gene_total d = 0 \<or> trait_total d = 0)) \<longleftrightarrow>
            (\<exists>n \<in> set ns. \<exists>d. map_of probs n = Some d \<and> (gene_total d = 0 \<or> trait_total d = 0))"
        by (rule bex_cong[OF refl]) (simp only: other[OF ne])
      then show ?thesis using False d by auto
    qed
    have maps: "map (\<lambda>(n, d). (n, if n \<in> set ns then normalized d else d)) ?probs1 =
                map (\<lambda>(n, d). (n, if n \<in> set (name # ns) then normalized d else d)) probs"
      unfolding p1 map_map by (rule map_cong[OF refl]) (use Cons.prems(2) dd in auto)
    show ?thesis
      unfolding step IH cond maps ..
  qed
qed

lemma normalize_closed:
  assumes "distinct (map fst probs)"
  shows "normalize probs =
           (if \<exists>(n, d) \<in> set probs. gene_total d = 0 \<or> trait_total d = 0
            then Inl ZeroDivisionError
            else Inr (map (\<lambda>(n, d). (n, normalized d)) probs))"
proof -
  have c: "(\<exists>n \<in> set (map fst probs). \<exists>d. map_of probs n = Some d \<and> (gene_total d = 0 \<or> trait_total d = 0)) \<longleftrightarrow>
           (\<exists>(n, d) \<in> set probs. gene_total d = 0 \<or> trait_total d = 0)"
    using assms by (force simp: map_of_eq_Some_iff)
  have m: "map (\<lambda>(n, d). (n, if n \<in> set (map fst probs) then normalized d else d)) probs =
           map (\<lambda>(n, d). (n, normalized d)) probs"
    by (rule map_cong[OF refl]) force
  have "normalize_loop (map fst probs) probs =
           (if \<exists>n \<in> set (map fst probs). \<exists>d. map_of probs n = Some d \<and> (gene_total d = 0 \<or> trait_total d = 0)
            then Inl ZeroDivisionError
            else Inr (map (\<lambda>(n, d). (n, if n \<in> set (map fst probs) then normalized d else d)) probs))"
    by (rule normalize_loop_closed[OF assms assms]) simp
  then show ?thesis
    unfolding normalize_def c m .
qed

lemma hypotheses_nonempty:
  assumes d: "distinct (map fst people)"
  shows "hypotheses people \<noteq> []"
proof -
  let ?ht = "{n. \<exists>row. (n, row) \<in> set people \<and> trait row = Some True}"
  have "\<not> fails_evidence people ?ht"
    unfolding fails_evidence_def list_ex_iff
  proof
    assume "\<exists>x \<in> set people. case x of (person, row) \<Rightarrow>
              trait row \<noteq> None \<and> trait row \<noteq> Some (person \<in> ?ht)"
    then obtain person row where r: "(person, row) \<in> set people" "trait row \<noteq> None"
      "trait row \<noteq> Some (person \<in> ?ht)" by auto
    then obtain b where b: "trait row = Some b" by auto
    show False
    proof (cases b)
      case True
      then have "person \<in> ?ht" using r(1) b by auto
      then show False using r(3) b True by simp
    next
      case False
      have "person \<notin> ?ht"
      proof
        assume "person \<in> ?ht"
        then obtain row' where "(person, row') \<in> set people" "trait row' = Some True" by auto
        then show False using eq_key_imp_eq_value[OF d r(1)] b False by auto
      qed
      then show False using r(3) b False by simp
    qed
  qed
  moreover have "?ht \<subseteq> set (map fst people)" by force
  then have "({}, {}, ?ht) \<in> set (all_hypotheses (map fst people))"
    unfolding set_all_hypotheses by simp
  ultimately have "({}, {}, ?ht) \<in> set (hypotheses people)"
    unfolding hypotheses_filter by simp
  then show ?thesis by auto
qed

lemma normalized_gene:
  assumes "gene_total d \<noteq> 0"
  shows "gene_dist (normalized d) 0 + gene_dist (normalized d) 1 + gene_dist (normalized d) 2 = 1"
    and "k \<in> {0, 1, 2} \<Longrightarrow> gene_dist (normalized d) k = gene_dist d k / gene_total d"
proof -
  show "k \<in> {0, 1, 2} \<Longrightarrow> gene_dist (normalized d) k = gene_dist d k / gene_total d"
    by (auto simp: normalized_def)
  have "gene_dist (normalized d) 0 + gene_dist (normalized d) 1 + gene_dist (normalized d) 2 =
        (gene_dist d 0 + gene_dist d 1 + gene_dist d 2) / gene_total d"
    by (simp add: normalized_def add_divide_distrib)
  then show "gene_dist (normalized d) 0 + gene_dist (normalized d) 1 + gene_dist (normalized d) 2 = 1"
    using assms by (simp add: gene_total_def)
qed

lemma normalized_trait:
  assumes "trait_total d \<noteq> 0"
  shows "trait_dist (normalized d) True + trait_dist (normalized d) False = 1"
    and "trait_dist (normalized d) b = trait_dist d b / trait_total d"
proof -
  show "trait_dist (normalized d) b = trait_dist d b / trait_total d"
    by (cases b) (simp_all add: normalized_def)
  have "trait_dist (normalized d) True + trait_dist (normalized d) False =
        (trait_dist d False + trait_dist d True) / trait_total d"
    by (simp add: normalized_def add_divide_distrib)
  then show "trait_dist (normalized d) True + trait_dist (normalized d) False = 1"
    using assms by (simp add: trait_total_def)
qed

text \<open>
  Claim C8. \<open>normalize\<close> fails exactly when the gene total or the trait total of some
  person is zero; the failure is \<open>ZeroDivisionError\<close> and no other; when no total is zero
  it succeeds and stores the normalized entry of every person.
\<close>

theorem normalize_fails_iff_zero_total:
  assumes "distinct (map fst probabilities)"
  shows "(normalize probabilities = Inl ZeroDivisionError \<longleftrightarrow>
            (\<exists>(person, d) \<in> set probabilities. gene_total d = 0 \<or> trait_total d = 0)) \<and>
         (\<forall>e. normalize probabilities = Inl e \<longrightarrow> e = ZeroDivisionError) \<and>
         ((\<forall>(person, d) \<in> set probabilities. gene_total d \<noteq> 0 \<and> trait_total d \<noteq> 0) \<longrightarrow>
            normalize probabilities = Inr (map (\<lambda>(person, d). (person, normalized d)) probabilities))"
  unfolding normalize_closed[OF assms] by auto

theorem normalize_fails_iff_zero_total_witness:
  "normalize [(''Harry'', \<lparr>gene_dist = (\<lambda>_. 0), trait_dist = (\<lambda>_. 0)\<rparr>)] = Inl ZeroDivisionError \<and>
   normalize [(''Harry'', \<lparr>gene_dist = (\<lambda>_. 1), trait_dist = (\<lambda>_. 1)\<rparr>)] =
     Inr [(''Harry'', normalized \<lparr>gene_dist = (\<lambda>_. 1), trait_dist = (\<lambda>_. 1)\<rparr>)]"
  using normalize_fails_iff_zero_total[of "[(''Harry'', \<lparr>gene_dist = (\<lambda>_. 0), trait_dist = (\<lambda>_. 0)\<rparr>)]"]
    normalize_fails_iff_zero_total[of "[(''Harry'', \<lparr>gene_dist = (\<lambda>_. 1), trait_dist = (\<lambda>_. 1)\<rparr>)]"]
  by (simp add: gene_total_def trait_total_def)

subsection \<open>The inference run returns nothing\<close>

lemma accumulate_fails:
  assumes "distinct (map fst people)" and "people \<noteq> []"
  shows "accumulate (joint_probability people) (hypotheses people) probabilities =
           Inl IndentationError"
proof -
  obtain h hs where hs: "hypotheses people = h # hs"
    using hypotheses_nonempty[OF assms(1)] by (cases "hypotheses people") auto
  obtain one_gene two_genes have_trait where h: "h = (one_gene, two_genes, have_trait)"
    by (cases h)
  have "joint_probability people one_gene two_genes have_trait = Inl IndentationError"
    using assms(2) by (simp add: joint_probability_def Let_def joint_loop_fails)
  then show ?thesis by (simp add: hs h)
qed



text \<open>
  Claim C7. As the file stands, the run on a pedigree of one founder without an
  observation returns no posterior: \<open>main\<close> ends with \<open>IndentationError\<close>.
\<close>

theorem single_founder_returns_nothing:
  "main [(n, \<lparr>pname = pn, mother = None, father = None, trait = None\<rparr>)] = Inl IndentationError"
  using accumulate_fails[of "[(n, \<lparr>pname = pn, mother = None, father = None, trait = None\<rparr>)]"]
  by (simp add: main_def)

subsection \<open>Evidence consistency\<close>

lemma evaluated_consistent:
  assumes "(person, row) \<in> set people" and "trait row = Some b"
    and "(one_gene, two_genes, have_trait) \<in> set (hypotheses people)"
  shows "(person \<in> have_trait) = b"
proof -
  have "\<not> fails_evidence people have_trait"
    using assms(3) unfolding hypotheses_filter by simp
  then have "\<not> (trait row \<noteq> None \<and> trait row \<noteq> Some (person \<in> have_trait))"
    using assms(1) unfolding fails_evidence_def list_ex_iff by blast
  then show ?thesis using assms(2) by simp
qed

lemma update_loop_opposite:
  assumes "update_loop request p names probs = Inr probs'"
    and "\<And>e. request person = Some e \<Longrightarrow> trait_prop e = b"
    and "\<And>d. map_of probs person = Some d \<Longrightarrow> trait_dist d (\<not> b) = 0"
  shows "map_of probs' person = Some d' \<Longrightarrow> trait_dist d' (\<not> b) = 0"
  using assms(1,3)
proof (induction names arbitrary: probs)
  case Nil
  then show ?case by simp
next
  case (Cons name names)
  from Cons.prems(2) obtain e d where e: "request name = Some e" and d: "map_of probs name = Some d"
    and rest: "update_loop request p names
                 (AList.update name
                    (d\<lparr>gene_dist := (gene_dist d)(gene_no e := gene_dist d (gene_no e) + p),
                       trait_dist := (trait_dist d)(trait_prop e := trait_dist d (trait_prop e) + p)\<rparr>)
                    probs) = Inr probs'"
    by (auto simp: getitem_def bindE_def Let_def split: option.splits)
  show ?case
  proof (rule Cons.IH[OF Cons.prems(1) rest])
    fix d0
    assume a: "map_of (AList.update name
                    (d\<lparr>gene_dist := (gene_dist d)(gene_no e := gene_dist d (gene_no e) + p),
                       trait_dist := (trait_dist d)(trait_prop e := trait_dist d (trait_prop e) + p)\<rparr>)
                    probs) person = Some d0"
    show "trait_dist d0 (\<not> b) = 0"
    proof (cases "person = name")
      case True
      then have "trait_prop e = b" using assms(2) e by simp
      then show ?thesis using a True Cons.prems(3)[of d] d by (auto simp: update_conv)
    next
      case False
      then show ?thesis using a Cons.prems(3)[of d0] by (simp add: update_conv)
    qed
  qed
qed

lemma accumulate_opposite:
  assumes "accumulate evaluate hs probs = Inr probs'"
    and "\<forall>(one_gene, two_genes, have_trait) \<in> set hs. (person \<in> have_trait) = b"
    and "\<And>d. map_of probs person = Some d \<Longrightarrow> trait_dist d (\<not> b) = 0"
  shows "map_of probs' person = Some d' \<Longrightarrow> trait_dist d' (\<not> b) = 0"
  using assms
proof (induction hs arbitrary: probs)
  case Nil
  then show ?case by simp
next
  case (Cons h hs)
  obtain one_gene two_genes have_trait where h: "h = (one_gene, two_genes, have_trait)"
    by (cases h)
  from Cons.prems(2) obtain p probs1 where
    u: "update probs one_gene two_genes have_trait p = Inr probs1"
    and rest: "accumulate evaluate hs probs1 = Inr probs'"
    by (auto simp: h bindE_def split: sum.splits)
  have b: "(person \<in> have_trait) = b" using Cons.prems(3) h by simp
  have inv1: "trait_dist d (\<not> b) = 0" if "map_of probs1 person = Some d" for d
  proof (rule update_loop_opposite[OF u[unfolded update_def Let_def] _ _ that])
    fix e assume "make_request (map fst probs) one_gene two_genes have_trait person = Some e"
    then show "trait_prop e = b" using b by (auto simp: make_request_apply split: if_splits)
  next
    fix d assume "map_of probs person = Some d"
    then show "trait_dist d (\<not> b) = 0" by (rule Cons.prems(4))
  qed
  show ?case
    using Cons.IH[OF Cons.prems(1) rest _ inv1] Cons.prems(3) by simp
qed

lemma accumulate_total:
  assumes "\<And>one_gene two_genes have_trait. \<exists>p. evaluate one_gene two_genes have_trait = Inr p"
    and "distinct (map fst probs)"
  shows "\<exists>probs'. accumulate evaluate hs probs = Inr probs' \<and> map fst probs' = map fst probs"
  using assms(2)
proof (induction hs arbitrary: probs)
  case Nil
  then show ?case by simp
next
  case (Cons h hs)
  obtain one_gene two_genes have_trait where h: "h = (one_gene, two_genes, have_trait)"
    by (cases h)
  obtain p where p: "evaluate one_gene two_genes have_trait = Inr p"
    using assms(1) by blast
  let ?probs1 = "map (\<lambda>(n, d). (n, bump (hypothesis_gene one_gene two_genes n) (n \<in> have_trait) p d)) probs"
  have keys: "map fst ?probs1 = map fst probs" by (simp add: comp_def split_def)
  have step: "accumulate evaluate (h # hs) probs = accumulate evaluate hs ?probs1"
    by (simp add: h p update_closed[OF Cons.prems])
  have "distinct (map fst ?probs1)" using Cons.prems by (simp only: keys)
  from Cons.IH[OF this] obtain probs' where
    "accumulate evaluate hs ?probs1 = Inr probs'" "map fst probs' = map fst ?probs1"
    by blast
  then show ?case unfolding step keys by blast
qed

text \<open>
  Claim C4. For a person whose trait is observed to be \<open>b\<close>: every hypothesis that
  \<open>main\<close> passes on to the evaluator and to \<open>update\<close> gives that person the trait
  status \<open>b\<close>, since the others are skipped before the evaluator is called; whatever the
  evaluator returns, after every prefix of the run the bucket of the opposite trait status
  of that person is still 0; and if the evaluator returns a number for every hypothesis
  (and the names are distinct), every prefix of the run does return an accumulator.
\<close>

theorem evidence_consistency:
  assumes "(person, row) \<in> set people" and "trait row = Some b"
  shows "(\<forall>(one_gene, two_genes, have_trait) \<in> set (hypotheses people). (person \<in> have_trait) = b) \<and>
         (\<forall>k acc d. accumulate evaluate (take k (hypotheses people)) (initial_probabilities people) = Inr acc \<and>
                    map_of acc person = Some d \<longrightarrow> trait_dist d (\<not> b) = 0) \<and>
         ((\<forall>one_gene two_genes have_trait. \<exists>p. evaluate one_gene two_genes have_trait = Inr p) \<and>
          distinct (map fst people) \<longrightarrow>
            (\<forall>k. \<exists>acc d. accumulate evaluate (take k (hypotheses people)) (initial_probabilities people) = Inr acc \<and>
                    map_of acc person = Some d \<and> trait_dist d (\<not> b) = 0))"
proof -
  have cons: "\<forall>(one_gene, two_genes, have_trait) \<in> set (hypotheses people). (person \<in> have_trait) = b"
    using evaluated_consistent[OF assms] by auto
  have init: "trait_dist d (\<not> b) = 0" if "map_of (initial_probabilities people) person = Some d" for d
    using map_of_SomeD[OF that] by (auto simp: initial_probabilities_def)
  have pre: "\<forall>(one_gene, two_genes, have_trait) \<in> set (take k (hypotheses people)). (person \<in> have_trait) = b"
    for k
    using cons set_take_subset[of k "hypotheses people"] by blast
  have zero: "trait_dist d (\<not> b) = 0"
    if "accumulate evaluate (take k (hypotheses people)) (initial_probabilities people) = Inr acc"
      and "map_of acc person = Some d" for k acc d
    using accumulate_opposite[OF that(1) pre init that(2)] by simp
  have total: "\<exists>acc d. accumulate evaluate (take k (hypotheses people)) (initial_probabilities people) = Inr acc \<and>
                    map_of acc person = Some d \<and> trait_dist d (\<not> b) = 0"
    if ev: "\<forall>one_gene two_genes have_trait. \<exists>p. evaluate one_gene two_genes have_trait = Inr p"
      and dp: "distinct (map fst people)" for k
  proof -
    have d: "distinct (map fst (initial_probabilities people))"
      using dp by (simp add: initial_probabilities_def comp_def)
    obtain acc where a: "accumulate evaluate (take k (hypotheses people)) (initial_probabilities people) = Inr acc"
      "map fst acc = map fst (initial_probabilities people)"
      using accumulate_total[of evaluate "initial_probabilities people" "take k (hypotheses people)"] ev d
      by blast
    have "map fst acc = map fst people"
      using a(2) by (simp add: initial_probabilities_def comp_def)
    then have "set (map fst acc) = set (map fst people)"
      by (simp only:)
    then have "fst ` set acc = fst ` set people"
      by (simp only: set_map)
    moreover have "person \<in> fst ` set people"
      using imageI[OF assms(1), of fst] by simp
    ultimately have pk: "person \<in> fst ` set acc" by simp
    obtain d' where d': "map_of acc person = Some d'"
      using map_of_keys[OF pk] by (rule exE)
    have "trait_dist d' (\<not> b) = 0" by (rule zero[OF a(1) d'])
    then show ?thesis using a(1) d' by (intro exI conjI)
  qed
  show ?thesis
  proof (intro conjI allI impI)
    show "\<forall>(one_gene, two_genes, have_trait) \<in> set (hypotheses people). (person \<in> have_trait) = b"
      by (rule cons)
  next
    fix k acc d
    assume "accumulate evaluate (take k (hypotheses people)) (initial_probabilities people) = Inr acc \<and>
            map_of acc person = Some d"
    then show "trait_dist d (\<not> b) = 0" using zero[of k acc d] by simp
  next
    fix k
    assume "(\<forall>one_gene two_genes have_trait. \<exists>p. evaluate one_gene two_genes have_trait = Inr p) \<and>
            distinct (map fst people)"
    then show "\<exists>acc d. accumulate evaluate (take k (hypotheses people)) (initial_probabilities people) = Inr acc \<and>
                    map_of acc person = Some d \<and> trait_dist d (\<not> b) = 0"
      using total by blast
  qed
qed

theorem evidence_consistency_witness:
  "list_all (\<lambda>(one_gene, two_genes, have_trait). ''James'' \<in> have_trait) (hypotheses family0) \<and>
   (\<exists>acc d. accumulate (\<lambda>one_gene two_genes have_trait. Inr 1) (hypotheses family0)
              (initial_probabilities family0) = Inr acc \<and>
            map_of acc ''James'' = Some d \<and> trait_dist d False = 0)"
proof -
  have m: "(''James'', \<lparr>pname = ''James'', mother = None, father = None, trait = Some True\<rparr>) \<in> set family0"
    by (simp add: family0_def)
  have t: "trait \<lparr>pname = ''James'', mother = None, father = None, trait = Some True\<rparr> = Some True"
    by simp
  have dp: "distinct (map fst family0)"
    by (simp add: family0_def)
  note e = evidence_consistency[OF m t, of "\<lambda>one_gene two_genes have_trait. Inr 1"]
  have a: "\<forall>(one_gene, two_genes, have_trait) \<in> set (hypotheses family0). (''James'' \<in> have_trait) = True"
    using e by (rule conjunct1)
  have "(\<forall>one_gene two_genes have_trait. \<exists>p. (Inr 1 :: error + real) = Inr p) \<and>
          distinct (map fst family0) \<longrightarrow>
        (\<forall>k. \<exists>acc d. accumulate (\<lambda>one_gene two_genes have_trait. Inr 1) (take k (hypotheses family0))
                 (initial_probabilities family0) = Inr acc \<and>
               map_of acc ''James'' = Some d \<and> trait_dist d (\<not> True) = 0)"
    using e[THEN conjunct2, THEN conjunct2] by simp
  then have "\<forall>k. \<exists>acc d. accumulate (\<lambda>one_gene two_genes have_trait. Inr 1) (take k (hypotheses family0))
                 (initial_probabilities family0) = Inr acc \<and>
               map_of acc ''James'' = Some d \<and> trait_dist d (\<not> True) = 0"
    using dp by simp
  then have "\<exists>acc d. accumulate (\<lambda>one_gene two_genes have_trait. Inr 1)
                       (take (length (hypotheses family0)) (hypotheses family0))
                       (initial_probabilities family0) = Inr acc \<and>
                    map_of acc ''James'' = Some d \<and> trait_dist d (\<not> True) = 0"
    by (rule spec)
  then show ?thesis using a by (simp add: list_all_iff)
qed

end
